theory Spec2Isabelle
  imports
    Complex_Main
    "HOL-Library.Sublist"
    "HOL-Library.Multiset"
begin

section \<open>Feature subset selection (Orange/preprocess/fss.py)\<close>

text \<open>
  The module holds two preprocessors over a data table: \<^verbatim>\<open>SelectBestFeatures\<close>,
  which ranks the attributes of a table with a scoring method and keeps a leading part
  of the ranking, and \<^verbatim>\<open>RemoveNaNColumns\<close>, which drops the attribute columns
  that hold only unknown values. Both build a new domain and convert the table to it.
\<close>

subsection \<open>Variables and their classes\<close>

text \<open>
  Modelled from the spec: the variable classes of \<^verbatim>\<open>Orange.data.variable\<close> are
  not part of the module. A variable is a column descriptor with a kind; the kinds are
  the classes below, every one of them a subclass of \<^verbatim>\<open>Variable\<close>, and
  \<^verbatim>\<open>isinstance\<close> is the subclass test on the class of the object.
\<close>

datatype var_class = Variable | DiscreteVariable | ContinuousVariable | StringVariable

record variable =
  name :: string
  vtype :: var_class

definition issubclass :: "var_class \<Rightarrow> var_class \<Rightarrow> bool" where
  "issubclass c d = (c = d \<or> d = Variable)"

definition isinstance :: "variable \<Rightarrow> var_class \<Rightarrow> bool" where
  "isinstance f t = issubclass (vtype f) t"

text \<open>\<^verbatim>\<open>None\<close> is an instance of no variable class.\<close>

fun isinstance_opt :: "variable option \<Rightarrow> var_class \<Rightarrow> bool" where
  "isinstance_opt None t = False"
| "isinstance_opt (Some v) t = isinstance v t"

text \<open>The text Python prints for a class object, \<^verbatim>\<open><class 'qualified.Name'>\<close>.\<close>

definition class_repr :: "string \<Rightarrow> string" where
  "class_repr qualname = ''<class '' @ [CHR 0x27] @ qualname @ [CHR 0x27] @ ''>''"

fun var_class_name :: "var_class \<Rightarrow> string" where
  "var_class_name Variable = ''Orange.data.variable.Variable''"
| "var_class_name DiscreteVariable = ''Orange.data.variable.DiscreteVariable''"
| "var_class_name ContinuousVariable = ''Orange.data.variable.ContinuousVariable''"
| "var_class_name StringVariable = ''Orange.data.variable.StringVariable''"

subsection \<open>Domains and tables\<close>

text \<open>
  The cells of \<^verbatim>\<open>data.X\<close> and the scores are floats: a number or NaN. Of a cell
  the module only asks whether it is NaN; scores are compared, and every comparison with
  NaN is false. The two infinities compare with numbers as numbers do and are not told
  apart from them.
\<close>

datatype float = NaN | Num real

fun isnan :: "float \<Rightarrow> bool" where
  "isnan NaN = True"
| "isnan (Num x) = False"

fun float_lt :: "float \<Rightarrow> float \<Rightarrow> bool" where
  "float_lt (Num a) (Num b) = (a < b)"
| "float_lt _ _ = False"

fun float_le :: "float \<Rightarrow> float \<Rightarrow> bool" where
  "float_le (Num a) (Num b) = (a \<le> b)"
| "float_le _ _ = False"

fun float_ge :: "float \<Rightarrow> float \<Rightarrow> bool" where
  "float_ge (Num a) (Num b) = (a \<ge> b)"
| "float_ge _ _ = False"

text \<open>A two-dimensional array: its shape and the cell at a row and a column.\<close>

record ndarray =
  nrows :: nat
  ncols :: nat
  cell :: "nat \<Rightarrow> nat \<Rightarrow> float"

record domain =
  attributes :: "variable list"
  class_vars :: "variable list"
  metas :: "variable list"

text \<open>
  Modelled from the spec: \<^verbatim>\<open>Orange.data.Domain\<close> is not part of the module.
  Its constructor takes the three variable lists; \<^verbatim>\<open>class_var\<close> is the class
  variable of a domain that has exactly one, and \<^verbatim>\<open>None\<close> otherwise.
\<close>

definition Domain_new :: "variable list \<Rightarrow> variable list \<Rightarrow> variable list \<Rightarrow> domain" where
  "Domain_new attrs cvs ms = \<lparr>attributes = attrs, class_vars = cvs, metas = ms\<rparr>"

fun class_var :: "domain \<Rightarrow> variable option" where
  "class_var d = (case class_vars d of [c] \<Rightarrow> Some c | _ \<Rightarrow> None)"

record table =
  domain :: domain
  X :: ndarray

text \<open>
  Modelled from the spec: \<^verbatim>\<open>Table.from_table\<close> (also reached through
  \<^verbatim>\<open>Table(domain, data)\<close>) is not part of the module. The new table has the
  given domain and the same rows; the column of an attribute is the column that the
  attribute has in the source table, and unknown where the source has no such attribute.
\<close>

fun index_of :: "'a \<Rightarrow> 'a list \<Rightarrow> nat option" where
  "index_of x [] = None"
| "index_of x (y # ys) = (if x = y then Some 0 else map_option Suc (index_of x ys))"

definition column_of :: "table \<Rightarrow> variable \<Rightarrow> nat \<Rightarrow> float" where
  "column_of src v i =
     (case index_of v (attributes (domain src)) of
        None \<Rightarrow> NaN
      | Some c \<Rightarrow> cell (X src) i c)"

definition from_table :: "domain \<Rightarrow> table \<Rightarrow> table" where
  "from_table d src =
     \<lparr>domain = d,
      X = \<lparr>nrows = nrows (X src),
           ncols = length (attributes d),
           cell = (\<lambda>i j. column_of src (attributes d ! j) i)\<rparr>\<rparr>"

subsection \<open>Scoring methods and the selector's configuration\<close>

text \<open>
  A scoring method declares the class of class variable and of feature it works on and
  scores a feature on a table. \<^verbatim>\<open>method_class\<close> is the qualified name of the
  method's own class, which the error message prints.
\<close>

record scoring_method =
  method_class :: string
  class_type :: var_class
  feature_type :: var_class
  score :: "variable \<Rightarrow> table \<Rightarrow> float"

text \<open>
  The fields set by \<^verbatim>\<open>__init__(self, method=None, k=None, threshold=None, decreasing=True)\<close>;
  \<open>the_method\<close> is the field \<^verbatim>\<open>self.method\<close>.
\<close>

record select_best_features =
  the_method :: "scoring_method option"
  k :: "int option"
  threshold :: "real option"
  decreasing :: bool

definition init :: "scoring_method option \<Rightarrow> int option \<Rightarrow> real option \<Rightarrow> bool
    \<Rightarrow> select_best_features" where
  "init m kk t d = \<lparr>the_method = m, k = kk, threshold = t, decreasing = d\<rparr>"

datatype error = AttributeError | ValueError string

subsection \<open>The Python built-ins the selector uses\<close>

text \<open>
  \<^verbatim>\<open>sorted(xs, key=f, reverse=r)\<close> is CPython's \<^verbatim>\<open>list.sort\<close>, which
  compares keys with \<^verbatim>\<open><\<close> only. On a list of fewer than 64 elements it takes the
  leading run (\<^verbatim>\<open>count_run\<close>: the longest non-descending prefix, or the longest
  strictly descending prefix, which is then reversed) and inserts the remaining elements
  one by one at the place a binary search finds (\<^verbatim>\<open>binarysort\<close>). With
  \<^verbatim>\<open>reverse\<close> set, the list is reversed before and after.

  On keys that \<^verbatim>\<open><\<close> orders totally this yields the stable sorted list. Keys
  with NaN among them are not so ordered, and then the result is what these steps give.
  Lists of 64 or more elements, which CPython cuts into several such runs and merges,
  are sorted here by the same steps: without NaN keys the result is the same list, and
  with them it is a rearrangement of the input in both cases.
\<close>

function bsearch :: "('a \<Rightarrow> 'a \<Rightarrow> bool) \<Rightarrow> 'a \<Rightarrow> 'a list \<Rightarrow> nat \<Rightarrow> nat \<Rightarrow> nat" where
  "bsearch lt pivot xs l r =
     (if l < r
      then if lt pivot (xs ! (l + (r - l) div 2))
           then bsearch lt pivot xs l (l + (r - l) div 2)
           else bsearch lt pivot xs (l + (r - l) div 2 + 1) r
      else l)"
  by pat_completeness auto
termination
  by (relation "measure (\<lambda>(lt, pivot, xs, l, r). r - l)") simp_all

declare bsearch.simps [simp del]

fun binarysort :: "('a \<Rightarrow> 'a \<Rightarrow> bool) \<Rightarrow> 'a list \<Rightarrow> 'a list \<Rightarrow> 'a list" where
  "binarysort lt run [] = run"
| "binarysort lt run (pivot # rest) =
     binarysort lt
       (take (bsearch lt pivot run 0 (length run)) run
          @ pivot # drop (bsearch lt pivot run 0 (length run)) run)
       rest"

text \<open>
  How many of the elements after \<open>prev\<close> continue a non-descending run, and how many a
  strictly descending one.
\<close>

fun run_asc :: "('a \<Rightarrow> 'a \<Rightarrow> bool) \<Rightarrow> 'a \<Rightarrow> 'a list \<Rightarrow> nat" where
  "run_asc lt prev [] = 0"
| "run_asc lt prev (x # xs) = (if lt x prev then 0 else Suc (run_asc lt x xs))"

fun run_desc :: "('a \<Rightarrow> 'a \<Rightarrow> bool) \<Rightarrow> 'a \<Rightarrow> 'a list \<Rightarrow> nat" where
  "run_desc lt prev [] = 0"
| "run_desc lt prev (x # xs) = (if lt x prev then Suc (run_desc lt x xs) else 0)"

fun count_run :: "('a \<Rightarrow> 'a \<Rightarrow> bool) \<Rightarrow> 'a list \<Rightarrow> nat \<times> bool" where
  "count_run lt [] = (0, False)"
| "count_run lt [x] = (1, False)"
| "count_run lt (x # y # zs) =
     (if lt y x then (Suc (Suc (run_desc lt y zs)), True)
      else (Suc (Suc (run_asc lt y zs)), False))"

definition listsort :: "('a \<Rightarrow> 'a \<Rightarrow> bool) \<Rightarrow> 'a list \<Rightarrow> 'a list" where
  "listsort lt xs =
     (if length xs < 2 then xs
      else case count_run lt xs of
             (n, descending) \<Rightarrow>
               binarysort lt (if descending then rev (take n xs) else take n xs)
                 (drop n xs))"

definition sorted_py :: "('a \<Rightarrow> float) \<Rightarrow> bool \<Rightarrow> 'a list \<Rightarrow> 'a list" where
  "sorted_py key reverse xs =
     (if reverse
      then rev (listsort (\<lambda>x y. float_lt (key x) (key y)) (rev xs))
      else listsort (\<lambda>x y. float_lt (key x) (key y)) xs)"

text \<open>
  The slice \<^verbatim>\<open>xs[:n]\<close>: a negative \<^verbatim>\<open>n\<close> counts from the end of the list.
\<close>

definition slice_to :: "int \<Rightarrow> 'a list \<Rightarrow> 'a list" where
  "slice_to n xs =
     (if 0 \<le> n then take (nat n) xs else take (nat (int (length xs) + n)) xs)"

subsection \<open>SelectBestFeatures\<close>

definition features_of :: "scoring_method \<Rightarrow> table \<Rightarrow> variable list" where
  "features_of m data =
     filter (\<lambda>f. isinstance f (feature_type m)) (attributes (domain data))"

definition other_of :: "scoring_method \<Rightarrow> table \<Rightarrow> variable list" where
  "other_of m data =
     filter (\<lambda>f. \<not> isinstance f (feature_type m)) (attributes (domain data))"

definition scores_of :: "scoring_method \<Rightarrow> table \<Rightarrow> float list" where
  "scores_of m data = map (\<lambda>f. score m f data) (features_of m data)"

definition best_sorted :: "scoring_method \<Rightarrow> bool \<Rightarrow> table \<Rightarrow> (float \<times> variable) list" where
  "best_sorted m dec data =
     sorted_py fst dec (zip (scores_of m data) (features_of m data))"

text \<open>
  \<^verbatim>\<open>if self.k: best = best[:self.k]\<close>. The test is Python's truth value:
  \<^verbatim>\<open>None\<close> and \<open>0\<close> are both false.
\<close>

definition best_k :: "int option \<Rightarrow> (float \<times> variable) list \<Rightarrow> (float \<times> variable) list" where
  "best_k kk best =
     (case kk of
        None \<Rightarrow> best
      | Some n \<Rightarrow> if n \<noteq> 0 then slice_to n best else best)"

text \<open>
  The two predicates \<^verbatim>\<open>lambda x: x[0] >= self.threshold\<close> and
  \<^verbatim>\<open>lambda x: x[0] <= self.threshold\<close>.
\<close>

definition pred :: "real \<Rightarrow> bool \<Rightarrow> float \<times> variable \<Rightarrow> bool" where
  "pred t dec x = (if dec then float_ge (fst x) (Num t) else float_le (fst x) (Num t))"

text \<open>
  \<^verbatim>\<open>if self.threshold: best = takewhile(pred, best)\<close>, under the same truth
  value: \<^verbatim>\<open>None\<close> and \<open>0\<close> (or \<open>0.0\<close>) are both false.
\<close>

definition best_threshold ::
    "real option \<Rightarrow> bool \<Rightarrow> (float \<times> variable) list \<Rightarrow> (float \<times> variable) list" where
  "best_threshold thr dec best =
     (case thr of
        None \<Rightarrow> best
      | Some t \<Rightarrow> if t \<noteq> 0 then takeWhile (pred t dec) best else best)"

definition select_best ::
    "select_best_features \<Rightarrow> scoring_method \<Rightarrow> table \<Rightarrow> (float \<times> variable) list" where
  "select_best self m data =
     best_threshold (threshold self) (decreasing self)
       (best_k (k self) (best_sorted m (decreasing self) data))"

definition message :: "scoring_method \<Rightarrow> string" where
  "message m =
     ''Scoring method '' @ class_repr (method_class m)
       @ '' requires a class variable of type ''
       @ class_repr (var_class_name (class_type m)) @ ''.''"

text \<open>
  \<^verbatim>\<open>__call__\<close>. The first statement reads \<^verbatim>\<open>self.method.class_type\<close>: on
  a selector left with the default \<^verbatim>\<open>method=None\<close> that is an
  \<^verbatim>\<open>AttributeError\<close>. Otherwise the class variable is checked, the attributes
  are split, scored, sorted and cut, and the table is converted to the new domain.
\<close>

definition SelectBestFeatures_call :: "select_best_features \<Rightarrow> table \<Rightarrow> error + table" where
  "SelectBestFeatures_call self data =
     (case the_method self of
        None \<Rightarrow> Inl AttributeError
      | Some m \<Rightarrow>
          if \<not> isinstance_opt (class_var (domain data)) (class_type m)
          then Inl (ValueError (message m))
          else Inr (from_table
                 (Domain_new (map snd (select_best self m data) @ other_of m data)
                    (class_vars (domain data)) (metas (domain data)))
                 data))"

subsection \<open>RemoveNaNColumns\<close>

text \<open>\<^verbatim>\<open>np.all(np.isnan(A), axis=0)\<close>: for every column, whether all its cells are NaN.\<close>

definition all_isnan_axis0 :: "ndarray \<Rightarrow> bool list" where
  "all_isnan_axis0 A =
     map (\<lambda>j. list_all (\<lambda>i. isnan (cell A i j)) [0..<nrows A]) [0..<ncols A]"

definition RemoveNaNColumns_call :: "table \<Rightarrow> table" where
  "RemoveNaNColumns_call data =
     (let nan_col = all_isnan_axis0 (X data);
          att = map fst (filter (\<lambda>(a, nan). \<not> nan) (zip (attributes (domain data)) nan_col))
      in from_table (Domain_new att (class_vars (domain data)) (metas (domain data))) data)"

subsection \<open>The order of the ranking\<close>

text \<open>
  Two scores are in the configured order when the first is not worse than the second:
  \<^verbatim>\<open>a >= b\<close> when \<open>decreasing\<close> is set, \<^verbatim>\<open>a <= b\<close> otherwise. The
  features of a list are ranked when each is in this order with all that follow it. A
  method scores a table without NaN when no attribute of the method's feature type gets
  the score NaN.
\<close>

definition in_order :: "bool \<Rightarrow> float \<Rightarrow> float \<Rightarrow> bool" where
  "in_order dec a b = (if dec then float_ge a b else float_le a b)"

definition ranked :: "scoring_method \<Rightarrow> table \<Rightarrow> bool \<Rightarrow> variable list \<Rightarrow> bool" where
  "ranked m data dec fs =
     sorted_wrt (\<lambda>f g. in_order dec (score m f data) (score m g data)) fs"

definition no_nan_scores :: "scoring_method \<Rightarrow> table \<Rightarrow> bool" where
  "no_nan_scores m data =
     list_all (\<lambda>f. isinstance f (feature_type m) \<longrightarrow> \<not> isnan (score m f data))
       (attributes (domain data))"

text \<open>The number a float holds, for floats that are not NaN.\<close>

fun num_of :: "float \<Rightarrow> real" where
  "num_of (Num a) = a"
| "num_of NaN = 0"

subsection \<open>Example tables and methods\<close>

definition var_A :: variable where
  "var_A = \<lparr>name = ''A'', vtype = ContinuousVariable\<rparr>"

definition var_B :: variable where
  "var_B = \<lparr>name = ''B'', vtype = ContinuousVariable\<rparr>"

definition var_C :: variable where
  "var_C = \<lparr>name = ''C'', vtype = StringVariable\<rparr>"

definition var_D :: variable where
  "var_D = \<lparr>name = ''D'', vtype = ContinuousVariable\<rparr>"

definition var_Y :: variable where
  "var_Y = \<lparr>name = ''y'', vtype = DiscreteVariable\<rparr>"

definition var_M :: variable where
  "var_M = \<lparr>name = ''m'', vtype = StringVariable\<rparr>"

text \<open>
  A table with the attributes A, B and C, one discrete class variable and one meta
  variable; two rows, in which column A is unknown throughout, column B holds one value
  \<open>3.0\<close> and column C is known throughout.
\<close>

definition ex_X :: ndarray where
  "ex_X = \<lparr>nrows = 2, ncols = 3,
            cell = (\<lambda>i j. if j = 0 then NaN
                          else if j = 1 then (if i = 0 then Num 3 else NaN)
                          else Num 1)\<rparr>"

definition ex_table :: table where
  "ex_table =
     \<lparr>domain = \<lparr>attributes = [var_A, var_B, var_C], class_vars = [var_Y], metas = [var_M]\<rparr>,
      X = ex_X\<rparr>"

text \<open>The same attributes over a domain without a class variable.\<close>

definition ex_classless :: table where
  "ex_classless =
     \<lparr>domain = \<lparr>attributes = [var_A, var_B, var_C], class_vars = [], metas = [var_M]\<rparr>,
      X = ex_X\<rparr>"

text \<open>The same attributes with a continuous class variable.\<close>

definition ex_regression :: table where
  "ex_regression =
     \<lparr>domain = \<lparr>attributes = [var_A, var_B, var_C], class_vars = [var_A], metas = []\<rparr>,
      X = ex_X\<rparr>"

text \<open>The attributes A, B, C and D, of which A, B and D are continuous.\<close>

definition ex_four :: table where
  "ex_four =
     \<lparr>domain = \<lparr>attributes = [var_A, var_B, var_C, var_D], class_vars = [var_Y], metas = []\<rparr>,
      X = \<lparr>nrows = 1, ncols = 4, cell = (\<lambda>i j. Num 1)\<rparr>\<rparr>"

text \<open>Seven continuous attributes, named 0 to 6.\<close>

definition var_F :: "string \<Rightarrow> variable" where
  "var_F n = \<lparr>name = n, vtype = ContinuousVariable\<rparr>"

definition ex_seven :: table where
  "ex_seven =
     \<lparr>domain = \<lparr>attributes = [var_F ''0'', var_F ''1'', var_F ''2'', var_F ''3'', var_F ''4'',
                              var_F ''5'', var_F ''6''],
                class_vars = [var_Y], metas = []\<rparr>,
      X = \<lparr>nrows = 1, ncols = 7, cell = (\<lambda>i j. Num 1)\<rparr>\<rparr>"

text \<open>
  Scoring methods for a discrete class over continuous features: \<open>ex_method\<close> gives
  A the score \<open>0.9\<close>, B \<open>0.5\<close> and anything else \<open>0.2\<close>;
  \<open>ex_signed\<close> gives A the score \<open>1\<close> and anything else \<open>-1\<close>;
  \<open>ex_tied\<close> gives every feature the score \<open>0.5\<close>;
  \<open>ex_nan\<close> gives A the score \<open>0.1\<close>, B the score NaN and anything else \<open>0.9\<close>;
  \<open>ex_nan_tied\<close> gives the attribute 2 the score \<open>2\<close>, the attribute 4 the score
  NaN and anything else \<open>1\<close>.
\<close>

definition ex_method :: scoring_method where
  "ex_method =
     \<lparr>method_class = ''ExampleScore'', class_type = DiscreteVariable,
      feature_type = ContinuousVariable,
      score = (\<lambda>f data. if name f = ''A'' then Num 0.9
                         else if name f = ''B'' then Num 0.5 else Num 0.2)\<rparr>"

definition ex_signed :: scoring_method where
  "ex_signed =
     \<lparr>method_class = ''SignedScore'', class_type = DiscreteVariable,
      feature_type = ContinuousVariable,
      score = (\<lambda>f data. if name f = ''A'' then Num 1 else Num (- 1))\<rparr>"

definition ex_tied :: scoring_method where
  "ex_tied =
     \<lparr>method_class = ''TiedScore'', class_type = DiscreteVariable,
      feature_type = ContinuousVariable,
      score = (\<lambda>f data. Num 0.5)\<rparr>"

definition ex_nan :: scoring_method where
  "ex_nan =
     \<lparr>method_class = ''NanScore'', class_type = DiscreteVariable,
      feature_type = ContinuousVariable,
      score = (\<lambda>f data. if name f = ''A'' then Num 0.1
                         else if name f = ''B'' then NaN else Num 0.9)\<rparr>"

definition ex_nan_tied :: scoring_method where
  "ex_nan_tied =
     \<lparr>method_class = ''NanTiedScore'', class_type = DiscreteVariable,
      feature_type = ContinuousVariable,
      score = (\<lambda>f data. if name f = ''2'' then Num 2
                         else if name f = ''4'' then NaN else Num 1)\<rparr>"

section \<open>Unfolding rules for the examples\<close>

lemmas ex_simps = var_A_def var_B_def var_C_def var_D_def var_Y_def var_M_def var_F_def
  ex_X_def ex_table_def ex_classless_def ex_regression_def ex_four_def ex_seven_def
  ex_method_def ex_signed_def ex_tied_def ex_nan_def ex_nan_tied_def

lemmas model_simps = features_of_def other_of_def scores_of_def best_sorted_def best_k_def
  pred_def best_threshold_def select_best_def sorted_py_def listsort_def slice_to_def
  isinstance_def issubclass_def init_def bsearch.simps

section \<open>Properties of the sort\<close>

lemma mset_take_drop: "mset (take j xs) + mset (drop j xs) = mset xs"
  by (metis append_take_drop_id mset_append)

lemma mset_binarysort: "mset (binarysort lt run rest) = mset run + mset rest"
proof (induction rest arbitrary: run)
  case Nil
  then show ?case by simp
next
  case (Cons p rest)
  have "mset (take j run @ p # drop j run) = mset run + {#p#}" for j
    using mset_take_drop [of j run] by simp
  then show ?case by (simp add: Cons.IH)
qed

lemma mset_listsort: "mset (listsort lt xs) = mset xs"
proof (cases "length xs < 2")
  case True
  then show ?thesis by (simp add: listsort_def)
next
  case False
  obtain n d where c: "count_run lt xs = (n, d)" by (cases "count_run lt xs")
  show ?thesis
    using False c mset_take_drop [of n xs] by (simp add: listsort_def mset_binarysort)
qed

lemma mset_sorted_py: "mset (sorted_py key r xs) = mset xs"
  by (simp add: sorted_py_def mset_listsort)

lemma bsearch_spec:
  "sorted (map g xs) \<Longrightarrow> \<forall>x \<in> set xs. lt p x = (g p < g x)
    \<Longrightarrow> l \<le> r \<Longrightarrow> r \<le> length xs \<Longrightarrow> \<forall>i<l. g (xs ! i) \<le> g p
    \<Longrightarrow> \<forall>i. r \<le> i \<and> i < length xs \<longrightarrow> g p < g (xs ! i)
    \<Longrightarrow> (\<forall>i < bsearch lt p xs l r. g (xs ! i) \<le> g p)
      \<and> (\<forall>i. bsearch lt p xs l r \<le> i \<and> i < length xs \<longrightarrow> g p < g (xs ! i))"
proof (induction lt p xs l r rule: bsearch.induct)
  case (1 lt pivot xs l r)
  note srt = "1.prems"(1) and ord = "1.prems"(2)
  show ?case
  proof (cases "l < r")
    case False
    with "1.prems" show ?thesis by (subst (1 2) bsearch.simps) simp
  next
    case True
    let ?m = "l + (r - l) div 2"
    have m: "l \<le> ?m" "?m < r" using True by simp_all
    have len: "?m < length xs" using m "1.prems"(4) by simp
    show ?thesis
    proof (cases "lt pivot (xs ! ?m)")
      case lt: True
      then have "g pivot < g (xs ! ?m)" using ord len by simp
      moreover have "g (xs ! ?m) \<le> g (xs ! i)" if "?m \<le> i" "i < length xs" for i
        using srt that by (simp add: sorted_iff_nth_mono)
      ultimately have up: "\<forall>i. ?m \<le> i \<and> i < length xs \<longrightarrow> g pivot < g (xs ! i)"
        by fastforce
      have "?m \<le> length xs" using len by simp
      from "1.IH"(1) [OF True lt srt ord m(1) this "1.prems"(5) up]
      show ?thesis using True lt by (subst (1 2) bsearch.simps) simp
    next
      case nlt: False
      then have "g (xs ! ?m) \<le> g pivot" using ord len by (simp add: not_less)
      moreover have "g (xs ! i) \<le> g (xs ! ?m)" if "i \<le> ?m" for i
        using srt that len by (simp add: sorted_iff_nth_mono)
      ultimately have lo: "\<forall>i < ?m + 1. g (xs ! i) \<le> g pivot"
        by (metis Suc_eq_plus1 less_Suc_eq_le order_trans)
      have "?m + 1 \<le> r" using m by simp
      from "1.IH"(2) [OF True nlt srt ord this "1.prems"(4) lo "1.prems"(6)]
      show ?thesis using True nlt by (subst (1 2) bsearch.simps) simp
    qed
  qed
qed

lemma bsearch_le: "l \<le> r \<Longrightarrow> bsearch lt p xs l r \<le> r"
proof (induction lt p xs l r rule: bsearch.induct)
  case (1 lt pivot xs l r)
  show ?case
  proof (cases "l < r")
    case False
    with "1.prems" show ?thesis by (subst bsearch.simps) simp
  next
    case True
    let ?m = "l + (r - l) div 2"
    have m: "l \<le> ?m" "?m + 1 \<le> r" using True by simp_all
    show ?thesis
    proof (cases "lt pivot (xs ! ?m)")
      case lt: True
      from "1.IH"(1) [OF True lt m(1)] m(2) True lt
      show ?thesis by (subst bsearch.simps) simp
    next
      case nlt: False
      from "1.IH"(2) [OF True nlt m(2)] True nlt
      show ?thesis by (subst bsearch.simps) simp
    qed
  qed
qed

text \<open>Inserting at the place the search finds.\<close>

lemma insert_found:
  assumes srt: "sorted (map g xs)" and ord: "\<forall>x \<in> set xs. lt p x = (g p < g x)"
  defines "j \<equiv> bsearch lt p xs 0 (length xs)"
  shows "sorted (map g (take j xs @ p # drop j xs))"
    and "filter (\<lambda>x. g x = v) (take j xs @ p # drop j xs) = filter (\<lambda>x. g x = v) (xs @ [p])"
proof -
  have vac: "\<forall>i. length xs \<le> i \<and> i < length xs \<longrightarrow> g p < g (xs ! i)"
    by auto
  have spec: "(\<forall>i < j. g (xs ! i) \<le> g p) \<and> (\<forall>i. j \<le> i \<and> i < length xs \<longrightarrow> g p < g (xs ! i))"
    unfolding j_def
    using bsearch_spec [where g = g and lt = lt and p = p and xs = xs and l = 0
        and r = "length xs"] srt ord vac
    by blast
  have jl: "j \<le> length xs" unfolding j_def by (rule bsearch_le) simp
  have lo: "\<forall>x \<in> set (take j xs). g x \<le> g p"
  proof
    fix x assume "x \<in> set (take j xs)"
    then obtain i where "i < length (take j xs)" "take j xs ! i = x"
      by (auto simp: in_set_conv_nth)
    then show "g x \<le> g p" using spec by auto
  qed
  have up: "\<forall>x \<in> set (drop j xs). g p < g x"
  proof
    fix x assume "x \<in> set (drop j xs)"
    then obtain i where "i < length (drop j xs)" "drop j xs ! i = x"
      by (auto simp: in_set_conv_nth)
    then show "g p < g x" using spec jl by auto
  qed
  have "sorted (map g (take j xs @ drop j xs))" using srt by simp
  then have parts: "sorted (map g (take j xs))" "sorted (map g (drop j xs))"
    by (simp_all only: map_append sorted_append)
  show "sorted (map g (take j xs @ p # drop j xs))"
  proof -
    have "g x \<le> g y" if "x \<in> set (take j xs)" "y \<in> set (drop j xs)" for x y
      using lo up that by (meson less_imp_le order_trans)
    then show ?thesis
      using parts lo up by (auto simp: sorted_append intro: less_imp_le)
  qed
  have "filter (\<lambda>x. g x = g p) (drop j xs) = []"
    using up by (auto simp: filter_empty_conv)
  moreover have "filter (\<lambda>x. g x = v) xs
      = filter (\<lambda>x. g x = v) (take j xs) @ filter (\<lambda>x. g x = v) (drop j xs)"
    by (metis append_take_drop_id filter_append)
  ultimately show "filter (\<lambda>x. g x = v) (take j xs @ p # drop j xs)
      = filter (\<lambda>x. g x = v) (xs @ [p])"
    by auto
qed


lemma binarysort_sorted_stable:
  "sorted (map g run) \<Longrightarrow> \<forall>x \<in> set run \<union> set rest. \<forall>y \<in> set run \<union> set rest. lt x y = (g x < g y)
    \<Longrightarrow> sorted (map g (binarysort lt run rest))
      \<and> filter (\<lambda>x. g x = v) (binarysort lt run rest) = filter (\<lambda>x. g x = v) (run @ rest)"
proof (induction rest arbitrary: run)
  case Nil
  then show ?case by simp
next
  case (Cons p rest)
  let ?j = "bsearch lt p run 0 (length run)"
  let ?run = "take ?j run @ p # drop ?j run"
  have ord: "\<forall>x \<in> set run. lt p x = (g p < g x)" using Cons.prems(2) by simp
  note ins = insert_found [where g = g and lt = lt and p = p and xs = run,
      OF Cons.prems(1) ord]
  have "set ?run \<union> set rest = set run \<union> set (p # rest)"
  proof -
    have "set (take ?j run) \<union> set (drop ?j run) = set run"
      by (metis append_take_drop_id set_append)
    then show ?thesis by auto
  qed
  then have ord': "\<forall>x \<in> set ?run \<union> set rest. \<forall>y \<in> set ?run \<union> set rest. lt x y = (g x < g y)"
    using Cons.prems(2) by simp
  from Cons.IH [OF ins(1) ord']
  have A: "sorted (map g (binarysort lt ?run rest))"
    and B: "filter (\<lambda>x. g x = v) (binarysort lt ?run rest)
              = filter (\<lambda>x. g x = v) (?run @ rest)"
    by blast+
  have "filter (\<lambda>x. g x = v) (?run @ rest)
      = filter (\<lambda>x. g x = v) ?run @ filter (\<lambda>x. g x = v) rest"
    by (simp only: filter_append)
  also have "\<dots> = filter (\<lambda>x. g x = v) (run @ [p]) @ filter (\<lambda>x. g x = v) rest"
    by (simp only: ins(2))
  also have "\<dots> = filter (\<lambda>x. g x = v) (run @ p # rest)"
    by simp
  finally have C: "filter (\<lambda>x. g x = v) (?run @ rest)
      = filter (\<lambda>x. g x = v) (run @ p # rest)" .
  have eq: "binarysort lt run (p # rest) = binarysort lt ?run rest" by simp
  show ?case unfolding eq using A B C by simp
qed

text \<open>The leading run.\<close>

lemma run_asc_sorted:
  "\<forall>x \<in> set (prev # xs). \<forall>y \<in> set (prev # xs). lt x y = (g x < g y)
    \<Longrightarrow> sorted (map g (prev # take (run_asc lt prev xs) xs))"
proof (induction xs arbitrary: prev)
  case Nil
  then show ?case by simp
next
  case (Cons x xs)
  show ?case
  proof (cases "lt x prev")
    case True
    then show ?thesis by simp
  next
    case False
    then have le: "g prev \<le> g x" using Cons.prems by (simp add: not_less)
    have "sorted (map g (x # take (run_asc lt x xs) xs))"
      using Cons.prems by (intro Cons.IH) simp
    with le False show ?thesis by auto
  qed
qed

lemma run_desc_sorted:
  fixes g :: "'a \<Rightarrow> 'b::linorder"
  shows "\<forall>x \<in> set (prev # xs). \<forall>y \<in> set (prev # xs). lt x y = (g x < g y)
    \<Longrightarrow> sorted_wrt (\<lambda>a b. g b < g a) (prev # take (run_desc lt prev xs) xs)"
proof (induction xs arbitrary: prev)
  case Nil
  then show ?case by simp
next
  case (Cons x xs)
  show ?case
  proof (cases "lt x prev")
    case False
    then show ?thesis by simp
  next
    case True
    then have less: "g x < g prev" using Cons.prems by simp
    have st: "sorted_wrt (\<lambda>a b. g b < g a) (x # take (run_desc lt x xs) xs)"
      using Cons.prems by (intro Cons.IH) simp
    then have "\<forall>y \<in> set (take (run_desc lt x xs) xs). g y < g x" by simp
    then have "\<forall>y \<in> set (take (run_desc lt x xs) xs). g y < g prev"
      using less by (meson less_trans)
    with st less True show ?thesis by simp
  qed
qed

lemma filter_rev_strict:
  fixes g :: "'a \<Rightarrow> 'b::linorder"
  assumes "sorted_wrt (\<lambda>a b. g b < g a) xs"
  shows "filter (\<lambda>x. g x = v) (rev xs) = filter (\<lambda>x. g x = v) xs"
proof -
  have "length (filter (\<lambda>x. g x = v) xs) \<le> 1"
    using assms
  proof (induction xs)
    case Nil
    then show ?case by simp
  next
    case (Cons a xs)
    then have IH: "length (filter (\<lambda>x. g x = v) xs) \<le> 1"
      and below: "\<forall>y \<in> set xs. g y < g a"
      by simp_all
    show ?case
    proof (cases "g a = v")
      case True
      then have "filter (\<lambda>x. g x = v) xs = []"
        using below by (auto simp: filter_empty_conv)
      with True show ?thesis by simp
    next
      case False
      with IH show ?thesis by simp
    qed
  qed
  then have "rev (filter (\<lambda>x. g x = v) xs) = filter (\<lambda>x. g x = v) xs"
    by (cases "filter (\<lambda>x. g x = v) xs") (auto simp: le_Suc_eq)
  then show ?thesis by (simp add: rev_filter)
qed

lemma count_run_sorted:
  assumes ord: "\<forall>x \<in> set xs. \<forall>y \<in> set xs. lt x y = (g x < g y)"
    and c: "count_run lt xs = (n, d)"
  shows "sorted (map g (if d then rev (take n xs) else take n xs))"
    and "filter (\<lambda>x. g x = v) (if d then rev (take n xs) else take n xs)
           = filter (\<lambda>x. g x = v) (take n xs)"
proof -
  have "sorted (map g (if d then rev (take n xs) else take n xs))
      \<and> filter (\<lambda>x. g x = v) (if d then rev (take n xs) else take n xs)
           = filter (\<lambda>x. g x = v) (take n xs)"
  proof (cases "(lt, xs)" rule: count_run.cases)
    case (1 lt')
    with c show ?thesis by auto
  next
    case (2 lt' x)
    with c show ?thesis by auto
  next
    case (3 lt' x y zs)
    then have xs: "xs = x # y # zs" by simp
    have ord2: "\<forall>a \<in> set (y # zs). \<forall>b \<in> set (y # zs). lt a b = (g a < g b)"
      using ord xs by simp
    show ?thesis
    proof (cases "lt y x")
      case True
      then have nd: "n = Suc (Suc (run_desc lt y zs))" "d" using c xs by simp_all
      have "g y < g x" using True ord xs by simp
      moreover note run_desc_sorted [OF ord2]
      ultimately have "sorted_wrt (\<lambda>a b. g b < g a) (x # y # take (run_desc lt y zs) zs)"
        by auto
      then have st: "sorted_wrt (\<lambda>a b. g b < g a) (take n xs)" using nd xs by simp
      then have "sorted_wrt (\<lambda>a b. g a < g b) (rev (take n xs))"
        by (simp add: sorted_wrt_rev)
      then have "sorted_wrt (\<lambda>a b. g a \<le> g b) (rev (take n xs))"
        by (rule sorted_wrt_mono_rel [rotated]) simp
      then have "sorted (map g (rev (take n xs)))"
        by (simp add: sorted_wrt_map)
      with nd filter_rev_strict [OF st] show ?thesis by simp
    next
      case False
      then have nd: "n = Suc (Suc (run_asc lt y zs))" "\<not> d" using c xs by simp_all
      have "g x \<le> g y" using False ord xs by (simp add: not_less)
      moreover note run_asc_sorted [OF ord2]
      ultimately have "sorted (map g (x # y # take (run_asc lt y zs) zs))"
        by auto
      with nd xs show ?thesis by simp
    qed
  qed
  then show "sorted (map g (if d then rev (take n xs) else take n xs))"
    and "filter (\<lambda>x. g x = v) (if d then rev (take n xs) else take n xs)
           = filter (\<lambda>x. g x = v) (take n xs)"
    by simp_all
qed

lemma listsort_sorted_stable:
  assumes ord: "\<forall>x \<in> set xs. \<forall>y \<in> set xs. lt x y = (g x < g y)"
  shows "sorted (map g (listsort lt xs))"
    and "filter (\<lambda>x. g x = v) (listsort lt xs) = filter (\<lambda>x. g x = v) xs"
proof -
  have "sorted (map g (listsort lt xs))
      \<and> filter (\<lambda>x. g x = v) (listsort lt xs) = filter (\<lambda>x. g x = v) xs"
  proof (cases "length xs < 2")
    case True
    then have "xs = [] \<or> (\<exists>x. xs = [x])"
      by (cases xs) (auto simp: length_Suc_conv)
    then show ?thesis using True by (auto simp: listsort_def)
  next
    case False
    obtain n d where c: "count_run lt xs = (n, d)" by (cases "count_run lt xs")
    let ?run = "if d then rev (take n xs) else take n xs"
    note run = count_run_sorted [OF ord c]
    have "set ?run \<union> set (drop n xs) = set xs"
    proof -
      have "set (take n xs) \<union> set (drop n xs) = set xs"
        by (metis append_take_drop_id set_append)
      then show ?thesis by auto
    qed
    then have ord': "\<forall>x \<in> set ?run \<union> set (drop n xs). \<forall>y \<in> set ?run \<union> set (drop n xs).
        lt x y = (g x < g y)"
      using ord by simp
    from binarysort_sorted_stable [OF run(1) ord', of v]
    have "sorted (map g (binarysort lt ?run (drop n xs)))"
      and "filter (\<lambda>x. g x = v) (binarysort lt ?run (drop n xs))
        = filter (\<lambda>x. g x = v) ?run @ filter (\<lambda>x. g x = v) (drop n xs)"
      by simp_all
    moreover have "filter (\<lambda>x. g x = v) (take n xs) @ filter (\<lambda>x. g x = v) (drop n xs)
        = filter (\<lambda>x. g x = v) xs"
      by (metis append_take_drop_id filter_append)
    ultimately show ?thesis
      using False c run(2) [of v] by (simp add: listsort_def)
  qed
  then show "sorted (map g (listsort lt xs))"
    and "filter (\<lambda>x. g x = v) (listsort lt xs) = filter (\<lambda>x. g x = v) xs"
    by simp_all
qed


section \<open>Properties of the ranking\<close>

lemma set_listsort: "set (listsort lt xs) = set xs"
  by (metis mset_listsort set_mset_mset)

lemma set_sorted_py: "set (sorted_py key r xs) = set xs"
  by (metis mset_sorted_py set_mset_mset)

lemma float_lt_num: "\<not> isnan a \<Longrightarrow> \<not> isnan b \<Longrightarrow> float_lt a b = (num_of a < num_of b)"
  by (cases a; cases b) simp_all

lemma in_order_num:
  "\<not> isnan a \<Longrightarrow> \<not> isnan b
    \<Longrightarrow> in_order dec a b = (if dec then num_of b \<le> num_of a else num_of a \<le> num_of b)"
  by (cases a; cases b) (simp_all add: in_order_def)

lemma key_eq_num: "\<not> isnan a \<Longrightarrow> (a = Num v) = (num_of a = v)"
  by (cases a) simp_all

lemma sorted_py_in_order:
  assumes nn: "\<forall>x \<in> set xs. \<not> isnan (key x)"
  shows "sorted_wrt (\<lambda>x y. in_order r (key x) (key y)) (sorted_py key r xs)"
proof -
  let ?lt = "\<lambda>x y. float_lt (key x) (key y)"
  let ?g = "\<lambda>x. num_of (key x)"
  have ord: "\<forall>x \<in> set zs. \<forall>y \<in> set zs. ?lt x y = (?g x < ?g y)" if "set zs = set xs" for zs
    using nn that by (simp add: float_lt_num)
  show ?thesis
  proof (cases r)
    case True
    let ?L = "listsort ?lt (rev xs)"
    have "sorted (map ?g ?L)"
      by (rule listsort_sorted_stable(1) [OF ord]) simp
    then have "sorted_wrt (\<lambda>x y. ?g x \<le> ?g y) ?L"
      by (simp add: sorted_wrt_map)
    then have A: "sorted_wrt (\<lambda>x y. ?g y \<le> ?g x) (rev ?L)"
      by (simp add: sorted_wrt_rev)
    have B: "set (rev ?L) = set xs" by (simp add: set_listsort)
    have "sorted_wrt (\<lambda>x y. in_order True (key x) (key y)) (rev ?L)"
    proof (rule sorted_wrt_mono_rel [OF _ A])
      fix x y
      assume "x \<in> set (rev ?L)" "y \<in> set (rev ?L)" "?g y \<le> ?g x"
      then show "in_order True (key x) (key y)"
        using nn B by (simp add: in_order_num)
    qed
    with True show ?thesis by (simp add: sorted_py_def)
  next
    case False
    let ?L = "listsort ?lt xs"
    have "sorted (map ?g ?L)"
      by (rule listsort_sorted_stable(1) [OF ord]) simp
    then have A: "sorted_wrt (\<lambda>x y. ?g x \<le> ?g y) ?L"
      by (simp add: sorted_wrt_map)
    have B: "set ?L = set xs" by (simp add: set_listsort)
    have "sorted_wrt (\<lambda>x y. in_order False (key x) (key y)) ?L"
    proof (rule sorted_wrt_mono_rel [OF _ A])
      fix x y
      assume "x \<in> set ?L" "y \<in> set ?L" "?g x \<le> ?g y"
      then show "in_order False (key x) (key y)"
        using nn B by (simp add: in_order_num)
    qed
    with False show ?thesis by (simp add: sorted_py_def)
  qed
qed

lemma sorted_py_stable:
  assumes nn: "\<forall>x \<in> set xs. \<not> isnan (key x)"
  shows "filter (\<lambda>x. key x = s) (sorted_py key r xs) = filter (\<lambda>x. key x = s) xs"
proof (cases s)
  case NaN
  have "filter (\<lambda>x. key x = NaN) zs = []" if "set zs = set xs" for zs
    using nn that by (auto simp: filter_empty_conv)
  then show ?thesis using NaN by (simp add: set_sorted_py)
next
  case (Num v)
  let ?lt = "\<lambda>x y. float_lt (key x) (key y)"
  let ?g = "\<lambda>x. num_of (key x)"
  have ord: "\<forall>x \<in> set zs. \<forall>y \<in> set zs. ?lt x y = (?g x < ?g y)" if "set zs = set xs" for zs
    using nn that by (simp add: float_lt_num)
  have conv: "filter (\<lambda>x. key x = Num v) zs = filter (\<lambda>x. ?g x = v) zs"
    if "set zs = set xs" for zs
    using nn that by (intro filter_cong) (simp_all add: key_eq_num)
  have st: "filter (\<lambda>x. ?g x = v) (listsort ?lt zs) = filter (\<lambda>x. ?g x = v) zs"
    if "set zs = set xs" for zs
    by (rule listsort_sorted_stable(2) [OF ord]) (rule that)
  show ?thesis
  proof (cases r)
    case True
    have "filter (\<lambda>x. key x = Num v) (rev (listsort ?lt (rev xs)))
        = rev (filter (\<lambda>x. key x = Num v) (listsort ?lt (rev xs)))"
      by (simp add: rev_filter)
    also have "\<dots> = rev (filter (\<lambda>x. ?g x = v) (listsort ?lt (rev xs)))"
      by (subst conv) (simp_all add: set_listsort)
    also have "\<dots> = rev (filter (\<lambda>x. ?g x = v) (rev xs))"
      by (subst st) simp_all
    also have "\<dots> = filter (\<lambda>x. ?g x = v) xs"
      by (simp add: rev_filter)
    also have "\<dots> = filter (\<lambda>x. key x = Num v) xs"
      by (subst conv) simp_all
    finally show ?thesis using True Num by (simp add: sorted_py_def)
  next
    case False
    have "filter (\<lambda>x. key x = Num v) (listsort ?lt xs)
        = filter (\<lambda>x. ?g x = v) (listsort ?lt xs)"
      by (subst conv) (simp_all add: set_listsort)
    also have "\<dots> = filter (\<lambda>x. ?g x = v) xs"
      by (subst st) simp_all
    also have "\<dots> = filter (\<lambda>x. key x = Num v) xs"
      by (subst conv) simp_all
    finally show ?thesis using False Num by (simp add: sorted_py_def)
  qed
qed

lemma slice_to_prefix: "prefix (slice_to n xs) xs"
  by (simp add: slice_to_def take_is_prefix)

lemma best_k_prefix: "prefix (best_k kk best) best"
  by (simp add: best_k_def slice_to_prefix split: option.splits)

lemma best_threshold_prefix: "prefix (best_threshold thr dec best) best"
  by (simp add: best_threshold_def takeWhile_is_prefix split: option.splits)

lemma select_best_prefix:
  "prefix (select_best self m data) (best_sorted m (decreasing self) data)"
  unfolding select_best_def
  using best_threshold_prefix best_k_prefix prefix_order.trans by blast

text \<open>Every pair of the sorted list holds a scorable attribute and its score.\<close>

lemma in_zip_map: "p \<in> set (zip (map f xs) xs) \<Longrightarrow> fst p = f (snd p) \<and> snd p \<in> set xs"
  by (induction xs) auto

lemma best_sorted_pairs:
  assumes "p \<in> set (best_sorted m dec data)"
  shows "fst p = score m (snd p) data" and "snd p \<in> set (features_of m data)"
proof -
  from assms have "p \<in> set (zip (scores_of m data) (features_of m data))"
    by (simp add: best_sorted_def set_sorted_py)
  then show "fst p = score m (snd p) data" and "snd p \<in> set (features_of m data)"
    unfolding scores_of_def by (auto dest: in_zip_map)
qed

lemma map_snd_zip_scores: "map snd (zip (scores_of m data) (features_of m data)) = features_of m data"
  by (simp add: scores_of_def)

lemma mset_best_sorted: "mset (map snd (best_sorted m dec data)) = mset (features_of m data)"
proof -
  have "mset (map snd (best_sorted m dec data))
      = image_mset snd (mset (zip (scores_of m data) (features_of m data)))"
    by (simp add: best_sorted_def mset_sorted_py)
  also have "\<dots> = mset (map snd (zip (scores_of m data) (features_of m data)))"
    by simp
  finally show ?thesis by (simp only: map_snd_zip_scores)
qed

lemma length_best_sorted: "length (best_sorted m dec data) = length (features_of m data)"
  by (metis length_map mset_best_sorted size_mset)

lemma no_nan_pairs:
  assumes "no_nan_scores m data"
  shows "\<forall>p \<in> set (zip (scores_of m data) (features_of m data)). \<not> isnan (fst p)"
proof
  fix p assume "p \<in> set (zip (scores_of m data) (features_of m data))"
  then have "fst p = score m (snd p) data" and "snd p \<in> set (features_of m data)"
    unfolding scores_of_def by (auto dest: in_zip_map)
  then show "\<not> isnan (fst p)"
    using assms by (simp add: no_nan_scores_def list_all_iff features_of_def)
qed

lemma ranked_best_sorted:
  assumes "no_nan_scores m data"
  shows "ranked m data dec (map snd (best_sorted m dec data))"
proof -
  have A: "sorted_wrt (\<lambda>p q. in_order dec (fst p) (fst q)) (best_sorted m dec data)"
    unfolding best_sorted_def by (rule sorted_py_in_order [OF no_nan_pairs [OF assms]])
  have "sorted_wrt (\<lambda>p q. in_order dec (score m (snd p) data) (score m (snd q) data))
      (best_sorted m dec data)"
  proof (rule sorted_wrt_mono_rel [OF _ A])
    fix p q
    assume "p \<in> set (best_sorted m dec data)" "q \<in> set (best_sorted m dec data)"
      "in_order dec (fst p) (fst q)"
    then show "in_order dec (score m (snd p) data) (score m (snd q) data)"
      by (simp add: best_sorted_pairs(1))
  qed
  then show ?thesis by (simp add: ranked_def sorted_wrt_map)
qed

lemma stable_best_sorted:
  assumes "no_nan_scores m data"
  shows "filter (\<lambda>f. score m f data = s) (map snd (best_sorted m dec data))
           = filter (\<lambda>f. score m f data = s) (features_of m data)"
proof -
  let ?z = "zip (scores_of m data) (features_of m data)"
  have conv: "filter (\<lambda>f. score m f data = s) (map snd ps) = map snd (filter (\<lambda>p. fst p = s) ps)"
    if "set ps = set ?z" for ps
  proof -
    have "filter (\<lambda>p. score m (snd p) data = s) ps = filter (\<lambda>p. fst p = s) ps"
      using that unfolding scores_of_def by (intro filter_cong) (auto dest: in_zip_map)
    then show ?thesis by (simp add: filter_map o_def)
  qed
  have "filter (\<lambda>f. score m f data = s) (map snd (best_sorted m dec data))
      = map snd (filter (\<lambda>p. fst p = s) (best_sorted m dec data))"
    by (rule conv) (simp add: best_sorted_def set_sorted_py)
  also have "\<dots> = map snd (filter (\<lambda>p. fst p = s) ?z)"
    unfolding best_sorted_def by (simp only: sorted_py_stable [OF no_nan_pairs [OF assms]])
  also have "\<dots> = filter (\<lambda>f. score m f data = s) (map snd ?z)"
    by (rule conv [symmetric]) simp
  finally show ?thesis by (simp only: map_snd_zip_scores)
qed

text \<open>What a call returns.\<close>

lemma call_result:
  assumes "the_method self = Some m"
    and "isinstance_opt (class_var (domain data)) (class_type m)"
  shows "\<exists>out. SelectBestFeatures_call self data = Inr out
      \<and> attributes (domain out) = map snd (select_best self m data) @ other_of m data
      \<and> class_vars (domain out) = class_vars (domain data)
      \<and> metas (domain out) = metas (domain data)"
  using assms by (simp add: SelectBestFeatures_call_def from_table_def Domain_new_def)

lemma call_method:
  assumes "SelectBestFeatures_call self data = Inr out"
  shows "\<exists>m. the_method self = Some m \<and> isinstance_opt (class_var (domain data)) (class_type m)"
  using assms
  by (auto simp: SelectBestFeatures_call_def split: option.splits if_splits)

text \<open>The selected features, and the sorted features that were cut off.\<close>

lemma selected_rest:
  "\<exists>R. map snd (best_sorted m (decreasing self) data) = map snd (select_best self m data) @ R"
  using map_mono_prefix [OF select_best_prefix, of snd self m data]
  by (auto simp: prefix_def)

section \<open>The examples, evaluated\<close>

lemma sorted_seven:
  "sorted_py fst False
     [(Num 1, a0), (Num 1, a1), (Num 2, a2), (Num 1, a3), (NaN, a4), (Num 1, a5), (Num 1, a6)]
   = [(Num 1, a0), (Num 1, a1), (Num 1, a3), (Num 1, a6), (Num 2, a2), (NaN, a4), (Num 1, a5)]"
proof -
  let ?lt = "\<lambda>x y. float_lt (fst x) (fst y)"
  have "binarysort ?lt [(Num 1, a0), (Num 1, a1), (Num 2, a2)]
          [(Num 1, a3), (NaN, a4), (Num 1, a5), (Num 1, a6)]
      = binarysort ?lt [(Num 1, a0), (Num 1, a1), (Num 1, a3), (Num 2, a2)]
          [(NaN, a4), (Num 1, a5), (Num 1, a6)]"
    by (subst binarysort.simps) (simp add: bsearch.simps del: binarysort.simps)
  also have "\<dots> = binarysort ?lt [(Num 1, a0), (Num 1, a1), (Num 1, a3), (Num 2, a2), (NaN, a4)]
          [(Num 1, a5), (Num 1, a6)]"
    by (subst binarysort.simps) (simp add: bsearch.simps del: binarysort.simps)
  also have "\<dots> = binarysort ?lt
          [(Num 1, a0), (Num 1, a1), (Num 1, a3), (Num 2, a2), (NaN, a4), (Num 1, a5)]
          [(Num 1, a6)]"
    by (subst binarysort.simps) (simp add: bsearch.simps del: binarysort.simps)
  also have "\<dots> = binarysort ?lt
          [(Num 1, a0), (Num 1, a1), (Num 1, a3), (Num 1, a6), (Num 2, a2), (NaN, a4), (Num 1, a5)]
          []"
    by (subst binarysort.simps) (simp add: bsearch.simps del: binarysort.simps)
  finally have steps: "binarysort ?lt [(Num 1, a0), (Num 1, a1), (Num 2, a2)]
          [(Num 1, a3), (NaN, a4), (Num 1, a5), (Num 1, a6)]
      = binarysort ?lt
          [(Num 1, a0), (Num 1, a1), (Num 1, a3), (Num 1, a6), (Num 2, a2), (NaN, a4), (Num 1, a5)]
          []" .
  have "sorted_py fst False
     [(Num 1, a0), (Num 1, a1), (Num 2, a2), (Num 1, a3), (NaN, a4), (Num 1, a5), (Num 1, a6)]
      = binarysort ?lt [(Num 1, a0), (Num 1, a1), (Num 2, a2)]
          [(Num 1, a3), (NaN, a4), (Num 1, a5), (Num 1, a6)]"
    by (simp add: sorted_py_def listsort_def del: binarysort.simps)
  also note steps
  also have "binarysort ?lt
          [(Num 1, a0), (Num 1, a1), (Num 1, a3), (Num 1, a6), (Num 2, a2), (NaN, a4), (Num 1, a5)]
          []
      = [(Num 1, a0), (Num 1, a1), (Num 1, a3), (Num 1, a6), (Num 2, a2), (NaN, a4), (Num 1, a5)]"
    by (simp only: binarysort.simps)
  finally show ?thesis .
qed

lemma best_sorted_seven:
  "map snd (best_sorted ex_nan_tied False ex_seven)
     = [var_F ''0'', var_F ''1'', var_F ''3'', var_F ''6'', var_F ''2'', var_F ''4'', var_F ''5'']"
proof -
  have "zip (scores_of ex_nan_tied ex_seven) (features_of ex_nan_tied ex_seven)
      = [(Num 1, var_F ''0''), (Num 1, var_F ''1''), (Num 2, var_F ''2''),
         (Num 1, var_F ''3''), (NaN, var_F ''4''), (Num 1, var_F ''5''), (Num 1, var_F ''6'')]"
    by (simp add: scores_of_def features_of_def isinstance_def issubclass_def ex_seven_def
        ex_nan_tied_def var_F_def)
  then show ?thesis by (simp add: best_sorted_def sorted_seven)
qed

lemma best_sorted_four:
  "map snd (best_sorted ex_nan True ex_four) = [var_A, var_B, var_D]"
  by (simp add: model_simps ex_simps)

section \<open>What a call returns\<close>

lemma call_attributes_eval:
  assumes "the_method self = Some m"
    and "isinstance_opt (class_var (domain data)) (class_type m)"
    and "map snd (select_best self m data) @ other_of m data = as"
  shows "map_sum id (attributes \<circ> domain) (SelectBestFeatures_call self data) = Inr as"
  using call_result [OF assms(1,2)] assms(3) by auto

lemma mset_select_best:
  "mset (map snd (select_best self m data)) \<subseteq># mset (features_of m data)"
proof -
  obtain R where "map snd (best_sorted m (decreasing self) data)
      = map snd (select_best self m data) @ R"
    using selected_rest by blast
  then have "mset (map snd (select_best self m data))
      \<subseteq># mset (map snd (best_sorted m (decreasing self) data))"
    by (metis mset_append mset_subset_eq_add_left)
  then show ?thesis by (simp only: mset_best_sorted)
qed

lemma call_attributes:
  assumes "SelectBestFeatures_call self data = Inr out" and "the_method self = Some m"
  shows "attributes (domain out) = map snd (select_best self m data) @ other_of m data"
    and "class_vars (domain out) = class_vars (domain data)"
    and "metas (domain out) = metas (domain data)"
  using assms
  by (auto simp: SelectBestFeatures_call_def from_table_def Domain_new_def split: if_splits)

lemma subseq_filter_zip: "subseq (map fst (filter P (zip xs ys))) xs"
proof (induction xs arbitrary: ys)
  case Nil
  then show ?case by simp
next
  case (Cons x xs)
  then show ?case by (cases ys) auto
qed

lemma remove_attributes:
  "attributes (domain (RemoveNaNColumns_call data))
     = map fst (filter (\<lambda>(a, nan). \<not> nan)
         (zip (attributes (domain data)) (all_isnan_axis0 (X data))))"
    "class_vars (domain (RemoveNaNColumns_call data)) = class_vars (domain data)"
    "metas (domain (RemoveNaNColumns_call data)) = metas (domain data)"
  by (simp_all add: RemoveNaNColumns_call_def from_table_def Domain_new_def Let_def)

lemma filter_zip_nths:
  "map fst (filter (\<lambda>(a, b). \<not> b) (zip xs (map f [0..<length xs])))
     = nths xs {j. \<not> f j}"
proof -
  have "zip xs (map f [0..<length xs]) = map (\<lambda>(a, j). (a, f j)) (zip xs [0..<length xs])"
    by (simp add: zip_map2)
  then have "map fst (filter (\<lambda>(a, b). \<not> b) (zip xs (map f [0..<length xs])))
     = map fst (filter (\<lambda>p. snd p \<in> {j. \<not> f j}) (zip xs [0..<length xs]))"
    by (simp add: filter_map o_def case_prod_beta)
  then show ?thesis by (simp add: nths_def)
qed

section \<open>The claims\<close>

text \<open>
  C1. The claim asks that with \<open>threshold\<close> set and \<open>k\<close> unset the kept scored
  features be the longest leading part of the sorted list whose scores meet the
  threshold. The selector does not do this for the threshold \<open>0\<close>: with
  \<open>decreasing\<close> set, A scoring \<open>1\<close> and B scoring \<open>-1\<close>, the output keeps B,
  whose score is not \<open>\<ge> 0\<close>, where the leading part that meets the threshold holds A
  alone. The guard \<^verbatim>\<open>if self.threshold:\<close> takes \<open>0\<close> for an unset threshold.
\<close>

theorem threshold_zero_keeps_failing_feature:
  "threshold (init (Some ex_signed) None (Some 0) True) = Some 0
   \<and> k (init (Some ex_signed) None (Some 0) True) = None
   \<and> map_sum id (attributes \<circ> domain)
        (SelectBestFeatures_call (init (Some ex_signed) None (Some 0) True) ex_table)
       = Inr [var_A, var_B, var_C]
   \<and> score ex_signed var_B ex_table = Num (- 1)
   \<and> \<not> pred 0 True (score ex_signed var_B ex_table, var_B)
   \<and> map snd (takeWhile (pred 0 True) (best_sorted ex_signed True ex_table)) = [var_A]"
proof -
  let ?c = "init (Some ex_signed) None (Some 0) True"
  have h1: "the_method ?c = Some ex_signed" by (simp add: init_def)
  have h2: "isinstance_opt (class_var (domain ex_table)) (class_type ex_signed)"
    by (simp add: ex_simps isinstance_def issubclass_def)
  have "map_sum id (attributes \<circ> domain) (SelectBestFeatures_call ?c ex_table)
      = Inr [var_A, var_B, var_C]"
    by (rule call_attributes_eval [OF h1 h2]) (simp add: model_simps ex_simps)
  moreover have "map snd (takeWhile (pred 0 True) (best_sorted ex_signed True ex_table))
      = [var_A]"
    by (simp add: model_simps ex_simps)
  ultimately show ?thesis
    by (simp add: init_def pred_def ex_signed_def var_B_def)
qed

text \<open>
  C2. For a selector with a scoring method: when the class variable of the table is not an
  instance of the method's \<open>class_type\<close>, the call raises the \<^verbatim>\<open>ValueError\<close>
  whose message holds the printed class of the method and the printed required class of
  class variable, and returns no table; when it is an instance, the call returns a table,
  so that no other error is raised.
\<close>

theorem class_type_mismatch_raises:
  assumes "the_method self = Some m"
  shows "(\<not> isinstance_opt (class_var (domain data)) (class_type m) \<longrightarrow>
            SelectBestFeatures_call self data = Inl (ValueError (message m))
          \<and> sublist (class_repr (method_class m)) (message m)
          \<and> sublist (class_repr (var_class_name (class_type m))) (message m))
       \<and> (isinstance_opt (class_var (domain data)) (class_type m) \<longrightarrow>
            (\<exists>out. SelectBestFeatures_call self data = Inr out))"
proof -
  have "sublist (class_repr (method_class m)) (message m)"
    unfolding message_def by (rule sublist_appendI)
  moreover have "sublist (class_repr (var_class_name (class_type m))) (message m)"
  proof -
    have "message m = (''Scoring method '' @ class_repr (method_class m)
       @ '' requires a class variable of type '')
       @ class_repr (var_class_name (class_type m)) @ ''.''"
      by (simp add: message_def)
    then show ?thesis by (metis sublist_appendI)
  qed
  ultimately show ?thesis
    using assms by (simp add: SelectBestFeatures_call_def)
qed

text \<open>
  A method for a discrete class on a table with a continuous class variable, and the same
  method on a table with a discrete one.
\<close>

theorem class_type_mismatch_raises_witness:
  "the_method (init (Some ex_method) (Some 1) None True) = Some ex_method
   \<and> \<not> isinstance_opt (class_var (domain ex_regression)) (class_type ex_method)
   \<and> SelectBestFeatures_call (init (Some ex_method) (Some 1) None True) ex_regression
       = Inl (ValueError (''Scoring method <class '' @ [CHR 0x27] @ ''ExampleScore''
           @ [CHR 0x27] @ ''> requires a class variable of type <class '' @ [CHR 0x27]
           @ ''Orange.data.variable.DiscreteVariable'' @ [CHR 0x27] @ ''>.''))
   \<and> isinstance_opt (class_var (domain ex_table)) (class_type ex_method)
   \<and> (\<exists>out. SelectBestFeatures_call (init (Some ex_method) (Some 1) None True) ex_table
         = Inr out)"
proof -
  let ?c = "init (Some ex_method) (Some 1) None True"
  have h: "the_method ?c = Some ex_method" by (simp add: init_def)
  have n: "\<not> isinstance_opt (class_var (domain ex_regression)) (class_type ex_method)"
    by (simp add: ex_simps isinstance_def issubclass_def)
  have y: "isinstance_opt (class_var (domain ex_table)) (class_type ex_method)"
    by (simp add: ex_simps isinstance_def issubclass_def)
  have msg: "message ex_method = ''Scoring method <class '' @ [CHR 0x27] @ ''ExampleScore''
           @ [CHR 0x27] @ ''> requires a class variable of type <class '' @ [CHR 0x27]
           @ ''Orange.data.variable.DiscreteVariable'' @ [CHR 0x27] @ ''>.''"
    by (simp add: message_def class_repr_def ex_method_def)
  from class_type_mismatch_raises [OF h, of ex_regression] n
  have "SelectBestFeatures_call ?c ex_regression = Inl (ValueError (message ex_method))"
    by blast
  moreover from class_type_mismatch_raises [OF h, of ex_table] y
  have "\<exists>out. SelectBestFeatures_call ?c ex_table = Inr out"
    by blast
  ultimately show ?thesis using h n y msg by simp
qed

text \<open>
  C3, as amended. When the method gives no scorable attribute the score NaN, the call
  returns a table whose attributes are the selected features \<open>S\<close> followed by the
  attributes that are not of the method's feature type; \<open>S\<close> is the leading part of a
  list \<open>S @ R\<close> (the sorted list) that rearranges the scorable attributes, is ranked in
  the configured order, for either value of \<open>decreasing\<close>, and holds the features of
  every score \<open>s\<close> in their order among the attributes of the table. In the output the
  features of score \<open>s\<close> are therefore a leading part of the scorable attributes of
  score \<open>s\<close>, in their original order.
\<close>

theorem equal_scores_keep_attribute_order:
  assumes "the_method self = Some m"
    and "isinstance_opt (class_var (domain data)) (class_type m)"
    and "no_nan_scores m data"
  shows "\<exists>out S R. SelectBestFeatures_call self data = Inr out
      \<and> attributes (domain out)
          = S @ filter (\<lambda>f. \<not> isinstance f (feature_type m)) (attributes (domain data))
      \<and> mset (S @ R)
          = mset (filter (\<lambda>f. isinstance f (feature_type m)) (attributes (domain data)))
      \<and> ranked m data (decreasing self) (S @ R)
      \<and> (\<forall>s. filter (\<lambda>f. score m f data = s) (S @ R)
               = filter (\<lambda>f. score m f data = s)
                   (filter (\<lambda>f. isinstance f (feature_type m)) (attributes (domain data))))
      \<and> (\<forall>s. prefix (filter (\<lambda>f. score m f data = s) S)
               (filter (\<lambda>f. score m f data = s)
                   (filter (\<lambda>f. isinstance f (feature_type m)) (attributes (domain data)))))"
proof -
  let ?S = "map snd (select_best self m data)"
  let ?B = "map snd (best_sorted m (decreasing self) data)"
  obtain out where out: "SelectBestFeatures_call self data = Inr out"
    "attributes (domain out) = ?S @ other_of m data"
    using call_result [OF assms(1,2)] by blast
  obtain R where R: "?B = ?S @ R" using selected_rest by blast
  have ms: "mset (?S @ R) = mset (features_of m data)"
    by (simp only: R [symmetric] mset_best_sorted)
  have rk: "ranked m data (decreasing self) (?S @ R)"
    by (simp only: R [symmetric] ranked_best_sorted [OF assms(3)])
  have st: "filter (\<lambda>f. score m f data = s) (?S @ R)
      = filter (\<lambda>f. score m f data = s) (features_of m data)" for s
    by (simp only: R [symmetric] stable_best_sorted [OF assms(3)])
  have pf: "prefix (filter (\<lambda>f. score m f data = s) ?S)
      (filter (\<lambda>f. score m f data = s) (features_of m data))" for s
    unfolding st [of s, symmetric] by (simp add: prefix_def)
  from out ms rk st pf show ?thesis
    unfolding features_of_def other_of_def by blast
qed

text \<open>A and B tie at \<open>0.5\<close>: A stays before B in both directions.\<close>

theorem equal_scores_keep_attribute_order_witness:
  "the_method (init (Some ex_tied) None None True) = Some ex_tied
   \<and> isinstance_opt (class_var (domain ex_table)) (class_type ex_tied)
   \<and> no_nan_scores ex_tied ex_table
   \<and> (\<exists>out S R. SelectBestFeatures_call (init (Some ex_tied) None None True) ex_table = Inr out
        \<and> attributes (domain out) = S @ [var_C]
        \<and> filter (\<lambda>f. score ex_tied f ex_table = Num (1/2)) (S @ R) = [var_A, var_B])
   \<and> map_sum id (attributes \<circ> domain)
        (SelectBestFeatures_call (init (Some ex_tied) None None True) ex_table)
       = Inr [var_A, var_B, var_C]
   \<and> map_sum id (attributes \<circ> domain)
        (SelectBestFeatures_call (init (Some ex_tied) None None False) ex_table)
       = Inr [var_A, var_B, var_C]"
proof -
  let ?c = "init (Some ex_tied) None None True"
  let ?d = "init (Some ex_tied) None None False"
  have h1: "the_method ?c = Some ex_tied" and g1: "the_method ?d = Some ex_tied"
    by (simp_all add: init_def)
  have h2: "isinstance_opt (class_var (domain ex_table)) (class_type ex_tied)"
    by (simp add: ex_simps isinstance_def issubclass_def)
  have h3: "no_nan_scores ex_tied ex_table"
    by (simp add: no_nan_scores_def ex_simps)
  have o: "filter (\<lambda>f. \<not> isinstance f (feature_type ex_tied)) (attributes (domain ex_table))
      = [var_C]"
    by (simp add: ex_simps isinstance_def issubclass_def)
  have f: "filter (\<lambda>f. score ex_tied f ex_table = Num (1/2))
      (filter (\<lambda>f. isinstance f (feature_type ex_tied)) (attributes (domain ex_table)))
      = [var_A, var_B]"
    by (simp add: ex_simps isinstance_def issubclass_def)
  from equal_scores_keep_attribute_order [OF h1 h2 h3]
  obtain out S R where "SelectBestFeatures_call ?c ex_table = Inr out"
    "attributes (domain out)
       = S @ filter (\<lambda>f. \<not> isinstance f (feature_type ex_tied)) (attributes (domain ex_table))"
    "\<forall>s. filter (\<lambda>f. score ex_tied f ex_table = s) (S @ R)
       = filter (\<lambda>f. score ex_tied f ex_table = s)
           (filter (\<lambda>f. isinstance f (feature_type ex_tied)) (attributes (domain ex_table)))"
    by blast
  then have w: "\<exists>out S R. SelectBestFeatures_call ?c ex_table = Inr out
        \<and> attributes (domain out) = S @ [var_C]
        \<and> filter (\<lambda>f. score ex_tied f ex_table = Num (1/2)) (S @ R) = [var_A, var_B]"
    unfolding o using f by metis
  have e1: "map_sum id (attributes \<circ> domain) (SelectBestFeatures_call ?c ex_table)
      = Inr [var_A, var_B, var_C]"
    by (rule call_attributes_eval [OF h1 h2]) (simp add: model_simps ex_simps)
  have e2: "map_sum id (attributes \<circ> domain) (SelectBestFeatures_call ?d ex_table)
      = Inr [var_A, var_B, var_C]"
    by (rule call_attributes_eval [OF g1 h2]) (simp add: model_simps ex_simps)
  from h1 h2 h3 w e1 e2 show ?thesis by blast
qed

text \<open>
  C3 as stated fails when a score is NaN. The attributes 0 to 6 score
  \<open>1, 1, 2, 1, NaN, 1, 1\<close>; sorted ascending, the attribute 6 comes out before the
  attribute 5, which has the same score and precedes it in the table.
\<close>

theorem nan_score_reorders_ties_counterexample:
  "attributes (domain ex_seven)
     = [var_F ''0'', var_F ''1'', var_F ''2'', var_F ''3'', var_F ''4'', var_F ''5'', var_F ''6'']
   \<and> score ex_nan_tied (var_F ''5'') ex_seven = score ex_nan_tied (var_F ''6'') ex_seven
   \<and> map_sum id (attributes \<circ> domain)
        (SelectBestFeatures_call (init (Some ex_nan_tied) None None False) ex_seven)
       = Inr [var_F ''0'', var_F ''1'', var_F ''3'', var_F ''6'', var_F ''2'', var_F ''4'',
              var_F ''5'']"
proof -
  let ?c = "init (Some ex_nan_tied) None None False"
  have h1: "the_method ?c = Some ex_nan_tied" by (simp add: init_def)
  have h2: "isinstance_opt (class_var (domain ex_seven)) (class_type ex_nan_tied)"
    by (simp add: ex_seven_def ex_nan_tied_def var_Y_def isinstance_def issubclass_def)
  have s: "select_best ?c ex_nan_tied ex_seven = best_sorted ex_nan_tied False ex_seven"
    by (simp add: select_best_def best_k_def best_threshold_def init_def)
  have o: "other_of ex_nan_tied ex_seven = []"
    by (simp add: other_of_def isinstance_def issubclass_def ex_seven_def ex_nan_tied_def
        var_F_def)
  have "map_sum id (attributes \<circ> domain) (SelectBestFeatures_call ?c ex_seven)
       = Inr [var_F ''0'', var_F ''1'', var_F ''3'', var_F ''6'', var_F ''2'', var_F ''4'',
              var_F ''5'']"
    by (rule call_attributes_eval [OF h1 h2]) (simp only: s o best_sorted_seven append_Nil2)
  then show ?thesis
    by (simp add: ex_seven_def ex_nan_tied_def var_F_def)
qed

text \<open>
  C4, as amended. With only \<open>k\<close> set, to a positive integer, the call returns a table
  whose attributes are the selected features \<open>S\<close> followed by the attributes that are
  not of the method's feature type, and \<open>S\<close> holds exactly \<open>min k n\<close> features,
  \<open>n\<close> being the number of scorable attributes. \<open>S\<close> is the leading part of a list
  \<open>S @ R\<close> that rearranges the scorable attributes; when no scorable attribute scores
  NaN, that list is ranked in the configured order (highest first when \<open>decreasing\<close>)
  with features of equal score in their original order, so \<open>S\<close> is the top \<open>k\<close>.
\<close>

theorem k_only_top_k:
  assumes "the_method self = Some m"
    and "isinstance_opt (class_var (domain data)) (class_type m)"
    and "k self = Some n" and "0 < n" and "threshold self = None"
  shows "\<exists>out S R. SelectBestFeatures_call self data = Inr out
      \<and> attributes (domain out)
          = S @ filter (\<lambda>f. \<not> isinstance f (feature_type m)) (attributes (domain data))
      \<and> length S
          = min (nat n)
              (length (filter (\<lambda>f. isinstance f (feature_type m)) (attributes (domain data))))
      \<and> mset (S @ R)
          = mset (filter (\<lambda>f. isinstance f (feature_type m)) (attributes (domain data)))
      \<and> (no_nan_scores m data \<longrightarrow>
            ranked m data (decreasing self) (S @ R)
          \<and> (\<forall>s. filter (\<lambda>f. score m f data = s) (S @ R)
                 = filter (\<lambda>f. score m f data = s)
                     (filter (\<lambda>f. isinstance f (feature_type m))
                        (attributes (domain data)))))"
proof -
  let ?S = "map snd (select_best self m data)"
  let ?B = "map snd (best_sorted m (decreasing self) data)"
  obtain out where out: "SelectBestFeatures_call self data = Inr out"
    "attributes (domain out) = ?S @ other_of m data"
    using call_result [OF assms(1,2)] by blast
  have sel: "select_best self m data = take (nat n) (best_sorted m (decreasing self) data)"
    using assms(3-5) by (simp add: select_best_def best_k_def best_threshold_def slice_to_def)
  have len: "length ?S = min (nat n) (length (features_of m data))"
    by (simp add: sel length_best_sorted min.commute)
  obtain R where R: "?B = ?S @ R" using selected_rest by blast
  have ms: "mset (?S @ R) = mset (features_of m data)"
    by (simp only: R [symmetric] mset_best_sorted)
  have rk: "ranked m data (decreasing self) (?S @ R)" if "no_nan_scores m data"
    by (simp only: R [symmetric] ranked_best_sorted [OF that])
  have st: "filter (\<lambda>f. score m f data = s) (?S @ R)
      = filter (\<lambda>f. score m f data = s) (features_of m data)" if "no_nan_scores m data" for s
    by (simp only: R [symmetric] stable_best_sorted [OF that])
  from out len ms rk st show ?thesis
    unfolding features_of_def other_of_def by blast
qed

text \<open>The example of the specification with \<open>k = 1\<close>: A is kept, B is cut.\<close>

theorem k_only_top_k_witness:
  "the_method (init (Some ex_method) (Some 1) None True) = Some ex_method
   \<and> isinstance_opt (class_var (domain ex_table)) (class_type ex_method)
   \<and> k (init (Some ex_method) (Some 1) None True) = Some 1 \<and> (0::int) < 1
   \<and> threshold (init (Some ex_method) (Some 1) None True) = None
   \<and> no_nan_scores ex_method ex_table
   \<and> (\<exists>out S R. SelectBestFeatures_call (init (Some ex_method) (Some 1) None True) ex_table
          = Inr out
        \<and> attributes (domain out) = S @ [var_C]
        \<and> length S = 1
        \<and> ranked ex_method ex_table True (S @ R))
   \<and> map_sum id (attributes \<circ> domain)
        (SelectBestFeatures_call (init (Some ex_method) (Some 1) None True) ex_table)
       = Inr [var_A, var_C]"
proof -
  let ?c = "init (Some ex_method) (Some 1) None True"
  have h1: "the_method ?c = Some ex_method" and h3: "k ?c = Some 1" and h4: "(0::int) < 1"
    and h5: "threshold ?c = None" and d: "decreasing ?c = True"
    by (simp_all add: init_def)
  have h2: "isinstance_opt (class_var (domain ex_table)) (class_type ex_method)"
    by (simp add: ex_simps isinstance_def issubclass_def)
  have nn: "no_nan_scores ex_method ex_table"
    by (simp add: no_nan_scores_def ex_simps)
  have o: "filter (\<lambda>f. \<not> isinstance f (feature_type ex_method)) (attributes (domain ex_table))
      = [var_C]"
    by (simp add: ex_simps isinstance_def issubclass_def)
  have l: "min (nat 1) (length (filter (\<lambda>f. isinstance f (feature_type ex_method))
      (attributes (domain ex_table)))) = 1"
    by (simp add: ex_simps isinstance_def issubclass_def)
  from k_only_top_k [OF h1 h2 h3 h4 h5] nn
  have w: "\<exists>out S R. SelectBestFeatures_call ?c ex_table = Inr out
        \<and> attributes (domain out) = S @ [var_C]
        \<and> length S = 1
        \<and> ranked ex_method ex_table True (S @ R)"
    unfolding o l d by blast
  have e: "map_sum id (attributes \<circ> domain) (SelectBestFeatures_call ?c ex_table)
      = Inr [var_A, var_C]"
    by (rule call_attributes_eval [OF h1 h2]) (simp add: model_simps ex_simps)
  from h1 h2 h3 h4 h5 nn w e show ?thesis by blast
qed

text \<open>
  C4 as stated fails when a score is NaN. A scores \<open>0.1\<close>, B NaN and D \<open>0.9\<close>;
  with \<open>k = 1\<close> and \<open>decreasing\<close> set the selector keeps A, not D.
\<close>

theorem nan_score_beats_best_counterexample:
  "score ex_nan var_A ex_four = Num (1/10)
   \<and> score ex_nan var_D ex_four = Num (9/10)
   \<and> map_sum id (attributes \<circ> domain)
        (SelectBestFeatures_call (init (Some ex_nan) (Some 1) None True) ex_four)
       = Inr [var_A, var_C]"
proof -
  let ?c = "init (Some ex_nan) (Some 1) None True"
  have h1: "the_method ?c = Some ex_nan" by (simp add: init_def)
  have h2: "isinstance_opt (class_var (domain ex_four)) (class_type ex_nan)"
    by (simp add: ex_simps isinstance_def issubclass_def)
  have "map_sum id (attributes \<circ> domain) (SelectBestFeatures_call ?c ex_four)
      = Inr [var_A, var_C]"
    by (rule call_attributes_eval [OF h1 h2]) (simp add: model_simps ex_simps)
  then show ?thesis by (simp add: ex_nan_def var_A_def var_D_def)
qed

text \<open>
  C5. The claim asks that with both \<open>k\<close> and \<open>threshold\<close> set the threshold cut be
  applied to the first \<open>k\<close> sorted pairs. The selector does not do this for the
  threshold \<open>0\<close>: with \<open>k = 2\<close>, \<open>decreasing\<close> set, A scoring \<open>1\<close> and B
  scoring \<open>-1\<close>, the output keeps B, whose score is not \<open>\<ge> 0\<close>, where the cut of
  the first two pairs holds A alone.
\<close>

theorem k_and_threshold_zero_keeps_failing_feature:
  "threshold (init (Some ex_signed) (Some 2) (Some 0) True) = Some 0
   \<and> k (init (Some ex_signed) (Some 2) (Some 0) True) = Some 2
   \<and> map_sum id (attributes \<circ> domain)
        (SelectBestFeatures_call (init (Some ex_signed) (Some 2) (Some 0) True) ex_table)
       = Inr [var_A, var_B, var_C]
   \<and> score ex_signed var_B ex_table = Num (- 1)
   \<and> \<not> pred 0 True (score ex_signed var_B ex_table, var_B)
   \<and> map snd (takeWhile (pred 0 True) (take 2 (best_sorted ex_signed True ex_table)))
       = [var_A]"
proof -
  let ?c = "init (Some ex_signed) (Some 2) (Some 0) True"
  have h1: "the_method ?c = Some ex_signed" by (simp add: init_def)
  have h2: "isinstance_opt (class_var (domain ex_table)) (class_type ex_signed)"
    by (simp add: ex_simps isinstance_def issubclass_def)
  have "map_sum id (attributes \<circ> domain) (SelectBestFeatures_call ?c ex_table)
      = Inr [var_A, var_B, var_C]"
    by (rule call_attributes_eval [OF h1 h2]) (simp add: model_simps ex_simps)
  moreover have "map snd (takeWhile (pred 0 True) (take 2 (best_sorted ex_signed True ex_table)))
      = [var_A]"
    by (simp add: model_simps ex_simps)
  ultimately show ?thesis
    by (simp add: init_def pred_def ex_signed_def var_B_def)
qed

text \<open>
  C6, as amended. The call returns a table whose attribute list is the selected features
  \<open>S\<close> followed by all attributes that are not instances of the method's
  \<open>feature_type\<close>, in their original order. The selected features are attributes of
  the feature type, each taken at most as often as the table has it, and they are ranked
  in the configured order when no scorable attribute scores NaN.
\<close>

theorem selected_then_other:
  assumes "the_method self = Some m"
    and "isinstance_opt (class_var (domain data)) (class_type m)"
  shows "\<exists>out S. SelectBestFeatures_call self data = Inr out
      \<and> attributes (domain out)
          = S @ filter (\<lambda>f. \<not> isinstance f (feature_type m)) (attributes (domain data))
      \<and> mset S \<subseteq># mset (filter (\<lambda>f. isinstance f (feature_type m)) (attributes (domain data)))
      \<and> (no_nan_scores m data \<longrightarrow> ranked m data (decreasing self) S)"
proof -
  let ?S = "map snd (select_best self m data)"
  let ?B = "map snd (best_sorted m (decreasing self) data)"
  obtain out where out: "SelectBestFeatures_call self data = Inr out"
    "attributes (domain out) = ?S @ other_of m data"
    using call_result [OF assms(1,2)] by blast
  obtain R where R: "?B = ?S @ R" using selected_rest by blast
  have rk: "ranked m data (decreasing self) ?S" if "no_nan_scores m data"
  proof -
    have "ranked m data (decreasing self) (?S @ R)"
      by (simp only: R [symmetric] ranked_best_sorted [OF that])
    then show ?thesis by (simp add: ranked_def sorted_wrt_append)
  qed
  from out mset_select_best [of self m data] rk show ?thesis
    unfolding features_of_def other_of_def by blast
qed

text \<open>
  The example of the specification: A scores \<open>0.9\<close>, B \<open>0.5\<close>, C is of another
  kind, \<open>k = 1\<close> and \<open>decreasing\<close>: the output attributes are A, C.
\<close>

theorem selected_then_other_witness:
  "the_method (init (Some ex_method) (Some 1) None True) = Some ex_method
   \<and> isinstance_opt (class_var (domain ex_table)) (class_type ex_method)
   \<and> no_nan_scores ex_method ex_table
   \<and> (\<exists>out S. SelectBestFeatures_call (init (Some ex_method) (Some 1) None True) ex_table
          = Inr out
        \<and> attributes (domain out) = S @ [var_C]
        \<and> mset S \<subseteq># mset [var_A, var_B]
        \<and> ranked ex_method ex_table True S)
   \<and> map_sum id (attributes \<circ> domain)
        (SelectBestFeatures_call (init (Some ex_method) (Some 1) None True) ex_table)
       = Inr [var_A, var_C]"
proof -
  let ?c = "init (Some ex_method) (Some 1) None True"
  have h1: "the_method ?c = Some ex_method" and d: "decreasing ?c = True"
    by (simp_all add: init_def)
  have h2: "isinstance_opt (class_var (domain ex_table)) (class_type ex_method)"
    by (simp add: ex_simps isinstance_def issubclass_def)
  have nn: "no_nan_scores ex_method ex_table"
    by (simp add: no_nan_scores_def ex_simps)
  have o: "filter (\<lambda>f. \<not> isinstance f (feature_type ex_method)) (attributes (domain ex_table))
      = [var_C]"
    and f: "filter (\<lambda>f. isinstance f (feature_type ex_method)) (attributes (domain ex_table))
      = [var_A, var_B]"
    by (simp_all add: ex_simps isinstance_def issubclass_def)
  from selected_then_other [OF h1 h2] nn
  have w: "\<exists>out S. SelectBestFeatures_call ?c ex_table = Inr out
        \<and> attributes (domain out) = S @ [var_C]
        \<and> mset S \<subseteq># mset [var_A, var_B]
        \<and> ranked ex_method ex_table True S"
    unfolding o f d by blast
  have e: "map_sum id (attributes \<circ> domain) (SelectBestFeatures_call ?c ex_table)
      = Inr [var_A, var_C]"
    by (rule call_attributes_eval [OF h1 h2]) (simp add: model_simps ex_simps)
  from h1 h2 nn w e show ?thesis by blast
qed

text \<open>
  C6 as stated fails when a score is NaN. A scores \<open>0.1\<close>, B NaN and D \<open>0.9\<close>;
  with \<open>decreasing\<close> set the output lists A, B, D and then C: A comes before D, whose
  score is higher, so the selected features are not in sorted order.
\<close>

theorem nan_score_breaks_order_counterexample:
  "map_sum id (attributes \<circ> domain)
     (SelectBestFeatures_call (init (Some ex_nan) None None True) ex_four)
     = Inr [var_A, var_B, var_D, var_C]
   \<and> \<not> in_order True (score ex_nan var_A ex_four) (score ex_nan var_D ex_four)
   \<and> \<not> ranked ex_nan ex_four True [var_A, var_B, var_D]"
proof -
  let ?c = "init (Some ex_nan) None None True"
  have h1: "the_method ?c = Some ex_nan" by (simp add: init_def)
  have h2: "isinstance_opt (class_var (domain ex_four)) (class_type ex_nan)"
    by (simp add: ex_simps isinstance_def issubclass_def)
  have "map_sum id (attributes \<circ> domain) (SelectBestFeatures_call ?c ex_four)
      = Inr [var_A, var_B, var_D, var_C]"
    by (rule call_attributes_eval [OF h1 h2]) (simp add: model_simps ex_simps)
  then show ?thesis
    by (simp add: ranked_def in_order_def ex_nan_def var_A_def var_B_def var_D_def)
qed

text \<open>
  C7. On a table whose array has one column per attribute, \<^verbatim>\<open>RemoveNaNColumns\<close>
  keeps, in their order, exactly the attributes at those positions whose column has a
  value that is not NaN in some row: the attribute of a column is removed if and only if
  all values of the column are NaN. The class variables and the meta variables are
  those of the input.
\<close>

theorem remove_all_missing_columns:
  assumes "ncols (X data) = length (attributes (domain data))"
  shows "attributes (domain (RemoveNaNColumns_call data))
           = nths (attributes (domain data))
               {j. \<exists>i < nrows (X data). \<not> isnan (cell (X data) i j)}
       \<and> class_vars (domain (RemoveNaNColumns_call data)) = class_vars (domain data)
       \<and> metas (domain (RemoveNaNColumns_call data)) = metas (domain data)"
proof -
  let ?f = "\<lambda>j. list_all (\<lambda>i. isnan (cell (X data) i j)) [0..<nrows (X data)]"
  have "all_isnan_axis0 (X data) = map ?f [0..<length (attributes (domain data))]"
    by (simp add: all_isnan_axis0_def assms)
  then have "attributes (domain (RemoveNaNColumns_call data))
      = nths (attributes (domain data)) {j. \<not> ?f j}"
    by (simp only: remove_attributes(1) filter_zip_nths)
  moreover have "{j. \<not> ?f j} = {j. \<exists>i < nrows (X data). \<not> isnan (cell (X data) i j)}"
    by (auto simp: list_all_iff)
  ultimately show ?thesis by (simp add: remove_attributes(2,3))
qed

text \<open>
  In the example table column A is unknown in both rows, column B holds one value and
  column C is known: B and C are kept.
\<close>

theorem remove_all_missing_columns_witness:
  "ncols (X ex_table) = length (attributes (domain ex_table))
   \<and> attributes (domain (RemoveNaNColumns_call ex_table)) = [var_B, var_C]
   \<and> class_vars (domain (RemoveNaNColumns_call ex_table)) = [var_Y]
   \<and> metas (domain (RemoveNaNColumns_call ex_table)) = [var_M]"
proof -
  have h: "ncols (X ex_table) = length (attributes (domain ex_table))"
    by (simp add: ex_table_def ex_X_def)
  have a: "attributes (domain (RemoveNaNColumns_call ex_table)) = [var_B, var_C]"
    by (simp add: RemoveNaNColumns_call_def all_isnan_axis0_def from_table_def Domain_new_def
        Let_def ex_table_def ex_X_def upt_rec)
  from remove_all_missing_columns [OF h] h a show ?thesis
    by (simp add: ex_table_def)
qed

text \<open>
  C8. The attributes of an output of \<^verbatim>\<open>SelectBestFeatures\<close> are, counted with
  multiplicity, among the attributes of the input (a reordered subset); the attributes of
  the output of \<^verbatim>\<open>RemoveNaNColumns\<close> are a subsequence of the attributes of the
  input (a filtered subset in the same order). Both leave the class variables and the
  meta variables as they are.
\<close>

theorem attributes_subset_rest_unchanged:
  "(\<forall>out. SelectBestFeatures_call self data = Inr out \<longrightarrow>
       mset (attributes (domain out)) \<subseteq># mset (attributes (domain data))
     \<and> class_vars (domain out) = class_vars (domain data)
     \<and> metas (domain out) = metas (domain data))
   \<and> subseq (attributes (domain (RemoveNaNColumns_call data))) (attributes (domain data))
   \<and> class_vars (domain (RemoveNaNColumns_call data)) = class_vars (domain data)
   \<and> metas (domain (RemoveNaNColumns_call data)) = metas (domain data)"
proof -
  have sel: "mset (attributes (domain out)) \<subseteq># mset (attributes (domain data))
       \<and> class_vars (domain out) = class_vars (domain data)
       \<and> metas (domain out) = metas (domain data)"
    if o: "SelectBestFeatures_call self data = Inr out" for out
  proof -
    from call_method [OF o] obtain m where m: "the_method self = Some m" by blast
    have "mset (attributes (domain out))
        = mset (map snd (select_best self m data)) + mset (other_of m data)"
      by (simp add: call_attributes(1) [OF o m])
    also have "\<dots> \<subseteq># mset (features_of m data) + mset (other_of m data)"
      using mset_select_best [of self m data] by simp
    also have "\<dots> = mset (attributes (domain data))"
      unfolding features_of_def other_of_def mset_filter
      by (rule multiset_partition [symmetric])
    finally show ?thesis
      using call_attributes(2,3) [OF o m] by simp
  qed
  have "subseq (attributes (domain (RemoveNaNColumns_call data))) (attributes (domain data))"
    by (simp only: remove_attributes(1) subseq_filter_zip)
  with sel show ?thesis by (simp add: remove_attributes(2,3))
qed

text \<open>An ascending ranking without limits reorders the attributes to B, A, C.\<close>

theorem attributes_subset_rest_unchanged_witness:
  "(\<exists>out. SelectBestFeatures_call (init (Some ex_method) None None False) ex_table = Inr out
        \<and> attributes (domain out) = [var_B, var_A, var_C]
        \<and> mset (attributes (domain out)) \<subseteq># mset [var_A, var_B, var_C]
        \<and> class_vars (domain out) = [var_Y] \<and> metas (domain out) = [var_M])
   \<and> subseq (attributes (domain (RemoveNaNColumns_call ex_table))) [var_A, var_B, var_C]"
proof -
  let ?c = "init (Some ex_method) None None False"
  have h: "the_method ?c = Some ex_method" by (simp add: init_def)
  have "isinstance_opt (class_var (domain ex_table)) (class_type ex_method)"
    by (simp add: ex_simps isinstance_def issubclass_def)
  then obtain out where o: "SelectBestFeatures_call ?c ex_table = Inr out"
    using h by (simp add: SelectBestFeatures_call_def)
  have s: "map snd (select_best ?c ex_method ex_table) = [var_B, var_A]"
    by (simp add: model_simps ex_simps)
  have r: "other_of ex_method ex_table = [var_C]"
    by (simp add: other_of_def isinstance_def issubclass_def ex_simps)
  have a: "attributes (domain out) = [var_B, var_A, var_C]"
    using call_attributes(1) [OF o h] s r by simp
  have d: "attributes (domain ex_table) = [var_A, var_B, var_C]"
    "class_vars (domain ex_table) = [var_Y]" "metas (domain ex_table) = [var_M]"
    by (simp_all add: ex_table_def)
  note T = attributes_subset_rest_unchanged [of ?c ex_table, unfolded d]
  from T o have "mset (attributes (domain out)) \<subseteq># mset [var_A, var_B, var_C]
     \<and> class_vars (domain out) = [var_Y] \<and> metas (domain out) = [var_M]"
    by blast
  moreover from T
  have "subseq (attributes (domain (RemoveNaNColumns_call ex_table))) [var_A, var_B, var_C]"
    by blast
  ultimately show ?thesis using o a by blast
qed

text \<open>
  C9. Because both steps are guarded by a truth-value test, \<open>k = 0\<close> behaves as
  \<open>k\<close> unset (no truncation is made) and \<open>threshold = 0\<close> behaves as
  \<open>threshold\<close> unset (no prefix cut is made), for the call as a whole and for the
  selected pairs.
\<close>

theorem zero_counts_as_unset:
  "(k self = Some 0 \<longrightarrow>
       SelectBestFeatures_call self data = SelectBestFeatures_call (self\<lparr>k := None\<rparr>) data
     \<and> select_best self m data
         = best_threshold (threshold self) (decreasing self)
             (best_sorted m (decreasing self) data))
   \<and> (threshold self = Some 0 \<longrightarrow>
       SelectBestFeatures_call self data
         = SelectBestFeatures_call (self\<lparr>threshold := None\<rparr>) data
     \<and> select_best self m data = best_k (k self) (best_sorted m (decreasing self) data))"
  by (simp add: SelectBestFeatures_call_def select_best_def best_k_def best_threshold_def
      split: option.splits)

text \<open>
  With \<open>threshold = 0\<close> and \<open>decreasing\<close>, B with its negative score is still kept;
  with \<open>k = 0\<close> both features are kept rather than none.
\<close>

theorem zero_counts_as_unset_witness:
  "k (init (Some ex_signed) (Some 0) None True) = Some 0
   \<and> select_best (init (Some ex_signed) (Some 0) None True) ex_signed ex_table
       = [(Num 1, var_A), (Num (- 1), var_B)]
   \<and> threshold (init (Some ex_signed) None (Some 0) True) = Some 0
   \<and> select_best (init (Some ex_signed) None (Some 0) True) ex_signed ex_table
       = [(Num 1, var_A), (Num (- 1), var_B)]"
proof -
  let ?c = "init (Some ex_signed) (Some 0) None True"
  let ?d = "init (Some ex_signed) None (Some 0) True"
  have h: "k ?c = Some 0" and g: "threshold ?d = Some 0" by (simp_all add: init_def)
  have c: "threshold ?c = None" "decreasing ?c = True" and d: "k ?d = None" "decreasing ?d = True"
    by (simp_all add: init_def)
  have b: "best_sorted ex_signed True ex_table = [(Num 1, var_A), (Num (- 1), var_B)]"
    by (simp add: model_simps ex_simps)
  from zero_counts_as_unset [of ?c ex_table ex_signed] h
  have "select_best ?c ex_signed ex_table
      = best_threshold (threshold ?c) (decreasing ?c) (best_sorted ex_signed (decreasing ?c) ex_table)"
    by blast
  with b c have e1: "select_best ?c ex_signed ex_table = [(Num 1, var_A), (Num (- 1), var_B)]"
    by (simp add: best_threshold_def)
  from zero_counts_as_unset [of ?d ex_table ex_signed] g
  have "select_best ?d ex_signed ex_table
      = best_k (k ?d) (best_sorted ex_signed (decreasing ?d) ex_table)"
    by blast
  with b d have e2: "select_best ?d ex_signed ex_table = [(Num 1, var_A), (Num (- 1), var_B)]"
    by (simp add: best_k_def)
  from h g e1 e2 show ?thesis by blast
qed

text \<open>
  C10. For a selector with a scoring method and a table whose domain has no class
  variable (\<^verbatim>\<open>class_var\<close> is \<^verbatim>\<open>None\<close>), the call raises the
  \<^verbatim>\<open>ValueError\<close>, whatever \<open>k\<close>, \<open>threshold\<close>, \<open>decreasing\<close> and
  the attributes are.
\<close>

theorem no_class_var_raises:
  assumes "the_method self = Some m" and "class_var (domain data) = None"
  shows "SelectBestFeatures_call self data = Inl (ValueError (message m))"
  using assms by (simp add: SelectBestFeatures_call_def)

text \<open>The example table without class variables.\<close>

theorem no_class_var_raises_witness:
  "the_method (init (Some ex_method) None (Some 5) True) = Some ex_method
   \<and> class_var (domain ex_classless) = None
   \<and> SelectBestFeatures_call (init (Some ex_method) None (Some 5) True) ex_classless
       = Inl (ValueError (message ex_method))"
proof -
  let ?c = "init (Some ex_method) None (Some 5) True"
  have h: "the_method ?c = Some ex_method" by (simp add: init_def)
  have n: "class_var (domain ex_classless) = None" by (simp add: ex_classless_def)
  from no_class_var_raises [OF h n] h n show ?thesis by simp
qed

end
